theory Spec2Isabelle
  imports Main "HOL-Library.Word"
begin

unbundle bit_operations_syntax

section \<open>Go values: bytes, slices and run-time failures\<close>

type_synonym byte = "8 word"
type_synonym uint16 = "16 word"
type_synonym uint32 = "32 word"

text \<open>
  The Go functions of the resolver return plain values and have no error results. What
  can stop them is a run-time panic (an index or a slice expression out of range, an
  integer division by zero) and, in \<open>main\<close>, \<open>log.Fatal\<close>. Each is a value here.
\<close>

datatype failure =
    IndexOutOfRange
  | SliceBoundsOutOfRange
  | IntegerDivideByZero
  | LogFatal string

text \<open>Sequencing: a failure stops the computation, as a panic does.\<close>

definition andThen :: "failure + 'a \<Rightarrow> ('a \<Rightarrow> failure + 'b) \<Rightarrow> failure + 'b" where
  "andThen r f = (case r of Inl e \<Rightarrow> Inl e | Inr x \<Rightarrow> f x)"

text \<open>
  A Go slice has a length and a capacity: \<open>s[i]\<close> is checked against the length, a
  slice expression \<open>s[lo:hi]\<close> against the capacity. \<open>vis\<close> holds the \<open>len(s)\<close>
  bytes of the slice, \<open>spare\<close> the bytes of the backing array between the length and the
  capacity.
\<close>

record slice =
  vis :: "byte list"
  spare :: "byte list"

definition len :: "slice \<Rightarrow> nat" where
  "len s = length (vis s)"

definition cap :: "slice \<Rightarrow> nat" where
  "cap s = length (vis s) + length (spare s)"

text \<open>\<open>s[i]\<close>\<close>

definition at :: "slice \<Rightarrow> nat \<Rightarrow> failure + byte" where
  "at s i = (if i < len s then Inr (vis s ! i) else Inl IndexOutOfRange)"

text \<open>\<open>s[lo:hi]\<close>, for non-negative \<open>lo\<close> and \<open>hi\<close>\<close>

definition reslice :: "slice \<Rightarrow> nat \<Rightarrow> nat \<Rightarrow> failure + slice" where
  "reslice s lo hi =
     (if lo \<le> hi \<and> hi \<le> cap s
      then Inr \<lparr>vis = take (hi - lo) (drop lo (vis s @ spare s)),
                spare = drop hi (vis s @ spare s)\<rparr>
      else Inl SliceBoundsOutOfRange)"

text \<open>\<open>s[lo:]\<close>: the upper bound is \<open>len(s)\<close>\<close>

definition sliceFrom :: "slice \<Rightarrow> nat \<Rightarrow> failure + slice" where
  "sliceFrom s lo = reslice s lo (len s)"

text \<open>\<open>s[:hi]\<close>\<close>

definition sliceTo :: "slice \<Rightarrow> nat \<Rightarrow> failure + slice" where
  "sliceTo s hi = reslice s 0 hi"

section \<open>encoding/binary, big endian\<close>

text \<open>\<open>binary.BigEndian.Uint16(b)\<close> reads \<open>b[1]\<close> first, as a bounds check.\<close>

definition Uint16 :: "slice \<Rightarrow> failure + uint16" where
  "Uint16 b =
     (if 1 < len b
      then Inr (ucast (vis b ! 1) OR push_bit 8 (ucast (vis b ! 0)))
      else Inl IndexOutOfRange)"

definition Uint32 :: "slice \<Rightarrow> failure + uint32" where
  "Uint32 b =
     (if 3 < len b
      then Inr (ucast (vis b ! 3) OR push_bit 8 (ucast (vis b ! 2))
                OR push_bit 16 (ucast (vis b ! 1)) OR push_bit 24 (ucast (vis b ! 0)))
      else Inl IndexOutOfRange)"

text \<open>\<open>binary.BigEndian.Uint16(s[lo:hi])\<close> and \<open>binary.BigEndian.Uint32(s[lo:hi])\<close>\<close>

definition Uint16_of :: "slice \<Rightarrow> nat \<Rightarrow> nat \<Rightarrow> failure + uint16" where
  "Uint16_of s lo hi = andThen (reslice s lo hi) Uint16"

definition Uint32_of :: "slice \<Rightarrow> nat \<Rightarrow> nat \<Rightarrow> failure + uint32" where
  "Uint32_of s lo hi = andThen (reslice s lo hi) Uint32"

text \<open>\<open>uint16ToByteSlice\<close>: \<open>PutUint16\<close> into a fresh buffer of two bytes.\<close>

definition uint16ToByteSlice :: "uint16 \<Rightarrow> byte list" where
  "uint16ToByteSlice number = [ucast (drop_bit 8 number), ucast number]"

fun packUint16Fields_loop :: "byte list \<Rightarrow> uint16 list \<Rightarrow> byte list" where
  "packUint16Fields_loop packedFields [] = packedFields"
| "packUint16Fields_loop packedFields (field # rest) =
     packUint16Fields_loop (packedFields @ uint16ToByteSlice field) rest"

definition packUint16Fields :: "uint16 list \<Rightarrow> byte list" where
  "packUint16Fields fieldsToPack = packUint16Fields_loop [] fieldsToPack"

section \<open>The header\<close>

record dnsHeader =
  id' :: uint16
  flags :: uint16
  numQuestions :: uint16
  numAnswers :: uint16
  numAuthorityRR :: uint16
  numAdditionalRR :: uint16

definition packHeader :: "dnsHeader \<Rightarrow> byte list" where
  "packHeader header =
     packUint16Fields [id' header, flags header, numQuestions header, numAnswers header,
                       numAuthorityRR header, numAdditionalRR header]"

text \<open>
  \<open>checkResponse\<close> returns \<open>nil\<close> (\<open>None\<close>) or an error made by \<open>errors.New\<close>
  from a message.
\<close>

definition checkResponse :: "dnsHeader \<Rightarrow> string option" where
  "checkResponse header =
     (if flags header < 32767 then Some ''No response from DNS server'' else None)"

definition unpackResponseHeader :: "slice \<Rightarrow> failure + dnsHeader" where
  "unpackResponseHeader message =
     andThen (sliceTo message 12) (\<lambda>headerBytes.
     andThen (Uint16_of headerBytes 0 2) (\<lambda>f1.
     andThen (Uint16_of headerBytes 2 4) (\<lambda>f2.
     andThen (Uint16_of headerBytes 4 6) (\<lambda>f3.
     andThen (Uint16_of headerBytes 6 8) (\<lambda>f4.
     andThen (Uint16_of headerBytes 8 10) (\<lambda>f5.
     andThen (Uint16_of headerBytes 10 12) (\<lambda>f6.
       Inr \<lparr>id' = f1, flags = f2, numQuestions = f3, numAnswers = f4,
            numAuthorityRR = f5, numAdditionalRR = f6\<rparr>)))))))"

section \<open>Names\<close>

text \<open>
  A Go string is a sequence of bytes; the conversions \<open>[]byte(s)\<close> and \<open>string(b)\<close>
  keep the bytes. \<open>strings.Split\<close> is modelled for a separator of one byte,
  \<open>strings.Join\<close> as the library documents it.
\<close>

definition bytes_of_string :: "string \<Rightarrow> byte list" where
  "bytes_of_string s = map of_char s"

definition string_of_bytes :: "byte list \<Rightarrow> string" where
  "string_of_bytes b = map (\<lambda>x. char_of (unat x)) b"

fun strings_Split :: "string \<Rightarrow> char \<Rightarrow> string list" where
  "strings_Split [] sep = [[]]"
| "strings_Split (c # cs) sep =
     (if c = sep then [] # strings_Split cs sep
      else (case strings_Split cs sep of
              [] \<Rightarrow> [[c]]
            | section # rest \<Rightarrow> (c # section) # rest))"

fun strings_Join :: "string list \<Rightarrow> string \<Rightarrow> string" where
  "strings_Join [] sep = []"
| "strings_Join [a] sep = a"
| "strings_Join (a # b # rest) sep = a @ sep @ strings_Join (b # rest) sep"

fun encodeHost_loop :: "byte list \<Rightarrow> string list \<Rightarrow> byte list" where
  "encodeHost_loop result [] = result"
| "encodeHost_loop result (section # rest) =
     encodeHost_loop ((result @ [of_nat (length section)]) @ bytes_of_string section) rest"

definition encodeHost :: "string \<Rightarrow> byte list" where
  "encodeHost host = encodeHost_loop [] (strings_Split host CHR ''.'') @ [0]"

text \<open>
  The loop \<open>for shift != 0 { n += int(shift) + 1; shift = buf[base+n] }\<close> of
  \<open>domainLength\<close> and \<open>extractAnswers\<close> (with \<open>base = 0\<close>) and of \<open>unpackAnswers\<close>
  and \<open>unpackAuthorityAnswer\<close> (with \<open>base = 12\<close>). It returns the final \<open>n\<close>.
\<close>

function shiftLoop :: "slice \<Rightarrow> nat \<Rightarrow> byte \<Rightarrow> nat \<Rightarrow> failure + nat" where
  "shiftLoop buf base shift n =
     (if shift \<noteq> 0
      then (case at buf (base + (n + unat shift + 1)) of
              Inl e \<Rightarrow> Inl e
            | Inr shift' \<Rightarrow> shiftLoop buf base shift' (n + unat shift + 1))
      else Inr n)"
  by pat_completeness auto
termination
  by (relation "measure (\<lambda>(buf, base, shift, n). len buf - (base + n))")
     (auto simp: at_def split: if_splits)

definition domainLength :: "slice \<Rightarrow> failure + nat" where
  "domainLength message =
     andThen (at message 0) (\<lambda>shift.
     andThen (shiftLoop message 0 shift 0) (\<lambda>domainBytes.
       Inr (domainBytes + 1)))"

text \<open>The first loop of \<open>decodeHost\<close> also collects the label lengths.\<close>

function decodeHost_shifts :: "slice \<Rightarrow> byte \<Rightarrow> nat \<Rightarrow> nat list \<Rightarrow> failure + nat list" where
  "decodeHost_shifts encodedHost shift fqdnBytes valueShifts =
     (if shift \<noteq> 0
      then (case at encodedHost (fqdnBytes + unat shift + 1) of
              Inl e \<Rightarrow> Inl e
            | Inr shift' \<Rightarrow>
                decodeHost_shifts encodedHost shift' (fqdnBytes + unat shift + 1)
                  (valueShifts @ [unat shift]))
      else Inr valueShifts)"
  by pat_completeness auto
termination
  by (relation "measure (\<lambda>(encodedHost, shift, fqdnBytes, valueShifts). len encodedHost - fqdnBytes)")
     (auto simp: at_def split: if_splits)

fun decodeHost_parts :: "slice \<Rightarrow> nat list \<Rightarrow> nat \<Rightarrow> string list \<Rightarrow> failure + string list" where
  "decodeHost_parts encodedHost [] sliceStart domainParts = Inr domainParts"
| "decodeHost_parts encodedHost (valueShift # rest) sliceStart domainParts =
     (case reslice encodedHost sliceStart (valueShift + sliceStart) of
        Inl e \<Rightarrow> Inl e
      | Inr part \<Rightarrow>
          decodeHost_parts encodedHost rest (sliceStart + valueShift + 1)
            (domainParts @ [string_of_bytes (vis part)]))"

definition decodeHost :: "slice \<Rightarrow> failure + string" where
  "decodeHost encodedHost =
     andThen (at encodedHost 0) (\<lambda>shift.
     andThen (decodeHost_shifts encodedHost shift 0 []) (\<lambda>valueShifts.
     andThen (decodeHost_parts encodedHost valueShifts 1 []) (\<lambda>domainParts.
       Inr (strings_Join domainParts ''.''))))"

section \<open>The question and the query\<close>

record dnsQuestion =
  qName :: "byte list"
  qType :: uint16
  qClass :: uint16

definition packQuestion :: "dnsQuestion \<Rightarrow> byte list" where
  "packQuestion question =
     (qName question @ uint16ToByteSlice (qType question)) @ uint16ToByteSlice (qClass question)"

definition packMessage :: "byte list \<Rightarrow> byte list \<Rightarrow> byte list" where
  "packMessage header dnsQuestion = header @ dnsQuestion"

text \<open>The query that \<open>main\<close> builds and sends.\<close>

definition host :: string where
  "host = ''dns.google.com''"

definition sendingQuestion :: dnsQuestion where
  "sendingQuestion = \<lparr>qName = encodeHost host, qType = 1, qClass = 1\<rparr>"

definition sendingHeader :: dnsHeader where
  "sendingHeader = \<lparr>id' = 22, flags = 0, numQuestions = 1, numAnswers = 0,
                     numAuthorityRR = 0, numAdditionalRR = 0\<rparr>"

definition main_message :: "byte list" where
  "main_message = packMessage (packHeader sendingHeader) (packQuestion sendingQuestion)"

section \<open>Resource records\<close>

text \<open>
  \<open>resourceRecordIPv4\<close> and \<open>resourceRecordNS\<close> have the same fields and differ in the
  type of \<open>RDData\<close>: \<open>net.IP\<close>, kept as the four bytes given to \<open>net.IPv4\<close>, and
  \<open>string\<close>.
\<close>

record 'd resourceRecord =
  name :: string
  recordType :: uint16
  recordClass :: uint16
  TTL :: uint32
  RDLength :: uint16
  RDData :: 'd

type_synonym IP = "byte \<times> byte \<times> byte \<times> byte"
type_synonym resourceRecordIPv4 = "IP resourceRecord"
type_synonym resourceRecordNS = "string resourceRecord"

definition decodeIP :: "slice \<Rightarrow> failure + IP" where
  "decodeIP ip =
     andThen (at ip 0) (\<lambda>a.
     andThen (at ip 1) (\<lambda>b.
     andThen (at ip 2) (\<lambda>c.
     andThen (at ip 3) (\<lambda>d.
       Inr (a, b, c, d)))))"

definition extractAuthorityAnswer :: "slice \<Rightarrow> failure + slice" where
  "extractAuthorityAnswer message =
     andThen (domainLength message) (\<lambda>d. sliceFrom message (d + 4))"

text \<open>
  The name of a compressed record, as \<open>unpackAnswers\<close> and \<open>unpackAuthorityAnswer\<close>
  both find it: the bytes of \<open>message\<close> from \<open>referenceDomain\<close> on, as many as the
  loop counts from offset 12.
\<close>

definition referencedName :: "slice \<Rightarrow> uint16 \<Rightarrow> failure + slice" where
  "referencedName message referenceDomain =
     andThen (sliceFrom message (unat referenceDomain)) (\<lambda>fqdnInitial.
     andThen (at fqdnInitial 0) (\<lambda>shift.
     andThen (shiftLoop message 12 shift 0) (\<lambda>fqdnBytes.
       reslice message (unat referenceDomain) (unat referenceDomain + fqdnBytes + 1))))"

text \<open>
  \<open>answer[12 : 12+binary.BigEndian.Uint16(answer[10:12])]\<close>: the sum is a \<open>uint16\<close>
  and wraps around.
\<close>

definition RDData_bytes :: "slice \<Rightarrow> failure + slice" where
  "RDData_bytes answer =
     andThen (Uint16_of answer 10 12) (\<lambda>n. reslice answer 12 (unat (12 + n)))"

definition unpackAuthorityAnswer :: "slice \<Rightarrow> slice \<Rightarrow> failure + resourceRecordNS" where
  "unpackAuthorityAnswer message answer =
     andThen (Uint16_of answer 0 2) (\<lambda>pointer.
       if pointer > 49152 then
         andThen (referencedName message (pointer - 49152)) (\<lambda>fqdn.
         andThen (decodeHost fqdn) (\<lambda>n.
         andThen (Uint16_of answer 2 4) (\<lambda>t.
         andThen (Uint16_of answer 4 6) (\<lambda>c.
         andThen (Uint32_of answer 6 10) (\<lambda>ttl.
         andThen (Uint16_of answer 10 12) (\<lambda>l.
         andThen (RDData_bytes answer) (\<lambda>rdata.
         andThen (decodeHost rdata) (\<lambda>d.
           Inr \<lparr>name = n, recordType = t, recordClass = c, TTL = ttl, RDLength = l,
                RDData = d\<rparr>))))))))
       else Inr \<lparr>name = [], recordType = 0, recordClass = 0, TTL = 0, RDLength = 0,
                 RDData = []\<rparr>)"

text \<open>Go's integer division truncates towards zero.\<close>

definition quo :: "int \<Rightarrow> int \<Rightarrow> int" where
  "quo a b = sgn a * sgn b * (\<bar>a\<bar> div \<bar>b\<bar>)"

text \<open>The loop \<open>for index := range initialAnswer\<close> of \<open>extractAnswers\<close>.\<close>

fun extractAnswers_loop ::
  "slice \<Rightarrow> int \<Rightarrow> nat list \<Rightarrow> int \<Rightarrow> int \<Rightarrow> slice list \<Rightarrow> failure + slice list" where
  "extractAnswers_loop initialAnswer separator [] count part answers = Inr answers"
| "extractAnswers_loop initialAnswer separator (index # rest) count part answers =
     (if count = separator
      then (if part < 0 then Inl SliceBoundsOutOfRange
            else (case reslice initialAnswer (nat part) (index + 1) of
                    Inl e \<Rightarrow> Inl e
                  | Inr a \<Rightarrow>
                      extractAnswers_loop initialAnswer separator rest 0 (part + (separator + 1))
                        (answers @ [a])))
      else extractAnswers_loop initialAnswer separator rest (count + 1) part answers)"

definition extractAnswers :: "slice \<Rightarrow> int \<Rightarrow> failure + slice list" where
  "extractAnswers message responseAnswers =
     andThen (at message 0) (\<lambda>shift.
     andThen (shiftLoop message 0 shift 0) (\<lambda>questionBytes.
     andThen (sliceFrom message (questionBytes + 5)) (\<lambda>initialAnswer.
       if responseAnswers = 0 then Inl IntegerDivideByZero
       else extractAnswers_loop initialAnswer
              (quo (int (len initialAnswer)) responseAnswers - 1)
              [0..<len initialAnswer] 0 0 [])))"

text \<open>The body of the loop of \<open>unpackAnswers\<close>: a record, or nothing to append.\<close>

definition unpackAnswers_body :: "slice \<Rightarrow> slice \<Rightarrow> failure + resourceRecordIPv4 option" where
  "unpackAnswers_body message answer =
     andThen (Uint16_of answer 0 2) (\<lambda>pointer.
       if pointer > 49152 then
         andThen (referencedName message (pointer - 49152)) (\<lambda>fqdn.
         andThen (decodeHost fqdn) (\<lambda>n.
         andThen (Uint16_of answer 2 4) (\<lambda>t.
         andThen (Uint16_of answer 4 6) (\<lambda>c.
         andThen (Uint32_of answer 6 10) (\<lambda>ttl.
         andThen (Uint16_of answer 10 12) (\<lambda>l.
         andThen (RDData_bytes answer) (\<lambda>rdata.
         andThen (decodeIP rdata) (\<lambda>d.
           Inr (Some \<lparr>name = n, recordType = t, recordClass = c, TTL = ttl, RDLength = l,
                      RDData = d\<rparr>)))))))))
       else Inr None)"

fun unpackAnswers_loop ::
  "slice \<Rightarrow> slice list \<Rightarrow> resourceRecordIPv4 list \<Rightarrow> failure + resourceRecordIPv4 list" where
  "unpackAnswers_loop message [] resourceRecords = Inr resourceRecords"
| "unpackAnswers_loop message (answer # rest) resourceRecords =
     (case unpackAnswers_body message answer of
        Inl e \<Rightarrow> Inl e
      | Inr None \<Rightarrow> unpackAnswers_loop message rest resourceRecords
      | Inr (Some r) \<Rightarrow> unpackAnswers_loop message rest (resourceRecords @ [r]))"

definition unpackAnswers :: "slice \<Rightarrow> slice list \<Rightarrow> failure + resourceRecordIPv4 list" where
  "unpackAnswers message answers = unpackAnswers_loop message answers []"

section \<open>Decoding a response\<close>

text \<open>
  What \<open>main\<close> does with the bytes that \<open>sendMessage\<close> returned, up to what it
  prints: the \<open>RDData\<close> of the authority record, or the records of the answers.
\<close>

datatype printed = Authority string | Answers "resourceRecordIPv4 list"

definition main_decode :: "slice \<Rightarrow> failure + printed" where
  "main_decode response =
     andThen (unpackResponseHeader response) (\<lambda>responseHeader.
     andThen (sliceFrom response 12) (\<lambda>responseNoHeader.
       case checkResponse responseHeader of
         Some err \<Rightarrow> Inl (LogFatal err)
       | None \<Rightarrow>
           if numAnswers responseHeader = 0 \<and> numAuthorityRR responseHeader > 0
           then andThen (extractAuthorityAnswer responseNoHeader) (\<lambda>authorityAnswer.
                andThen (unpackAuthorityAnswer response authorityAnswer) (\<lambda>u.
                  Inr (Authority (RDData u))))
           else andThen (extractAnswers responseNoHeader (uint (numAnswers responseHeader)))
                  (\<lambda>answers.
                andThen (unpackAnswers response answers) (\<lambda>rs.
                  Inr (Answers rs)))))"

section \<open>Specification-side notions\<close>

text \<open>The encoding of one label: its length as one byte, then its bytes.\<close>

definition label_bytes :: "string \<Rightarrow> byte list" where
  "label_bytes l = of_nat (length l) # bytes_of_string l"


text \<open>
  The two loops \<open>for shift != 0\<close> once more, with a bound on the number of times the
  condition is tested: \<open>None\<close> when the bound is used up before the loop has ended.
\<close>

fun shiftLoop_fuel :: "nat \<Rightarrow> slice \<Rightarrow> nat \<Rightarrow> byte \<Rightarrow> nat \<Rightarrow> (failure + nat) option" where
  "shiftLoop_fuel 0 buf base shift n = None"
| "shiftLoop_fuel (Suc fuel) buf base shift n =
     (if shift \<noteq> 0
      then (case at buf (base + (n + unat shift + 1)) of
              Inl e \<Rightarrow> Some (Inl e)
            | Inr shift' \<Rightarrow> shiftLoop_fuel fuel buf base shift' (n + unat shift + 1))
      else Some (Inr n))"

fun decodeHost_shifts_fuel ::
  "nat \<Rightarrow> slice \<Rightarrow> byte \<Rightarrow> nat \<Rightarrow> nat list \<Rightarrow> (failure + nat list) option" where
  "decodeHost_shifts_fuel 0 encodedHost shift fqdnBytes valueShifts = None"
| "decodeHost_shifts_fuel (Suc fuel) encodedHost shift fqdnBytes valueShifts =
     (if shift \<noteq> 0
      then (case at encodedHost (fqdnBytes + unat shift + 1) of
              Inl e \<Rightarrow> Some (Inl e)
            | Inr shift' \<Rightarrow>
                decodeHost_shifts_fuel fuel encodedHost shift' (fqdnBytes + unat shift + 1)
                  (valueShifts @ [unat shift]))
      else Some (Inr valueShifts))"

text \<open>The two run-time panics of indexing and slicing.\<close>

definition range_panic :: "failure \<Rightarrow> bool" where
  "range_panic e = (e = IndexOutOfRange \<or> e = SliceBoundsOutOfRange)"

section \<open>Basic facts\<close>

declare shiftLoop.simps [simp del]
declare decodeHost_shifts.simps [simp del]

lemma bit15_iff: "bit (w::uint16) 15 \<longleftrightarrow> 32768 \<le> w"
proof -
  have "bit w 15 \<longleftrightarrow> bit (unat w) 15"
    by (simp add: bit_unsigned_iff)
  also have "\<dots> \<longleftrightarrow> odd (unat w div 2 ^ 15)"
    by (simp add: bit_iff_odd)
  also have "\<dots> \<longleftrightarrow> 32768 \<le> unat w"
  proof -
    have "unat w < 65536"
      using unsigned_less [of w, where ?'a = nat] by simp
    then have "unat w div 32768 = (if 32768 \<le> unat w then 1 else 0)"
      by (auto intro!: div_nat_eqI)
    then show ?thesis by simp
  qed
  also have "\<dots> \<longleftrightarrow> 32768 \<le> w"
    by (simp add: word_le_nat_alt)
  finally show ?thesis .
qed

lemma Uint16_uint16ToByteSlice:
  "Uint16 \<lparr>vis = uint16ToByteSlice n, spare = sp\<rparr> = Inr n"
proof -
  have "ucast (ucast n :: byte) OR push_bit 8 (ucast (ucast (drop_bit 8 n) :: byte)) = n"
    by (rule bit_word_eqI) (auto simp add: bit_simps)
  then show ?thesis
    by (simp add: Uint16_def len_def uint16ToByteSlice_def)
qed

lemma reslice_mid:
  assumes "vis s @ spare s = a @ b @ c"
  shows "reslice s (length a) (length b + length a) = Inr \<lparr>vis = b, spare = c\<rparr>"
proof -
  have "cap s = length (a @ b @ c)"
    unfolding cap_def using assms by (metis length_append)
  then show ?thesis
    unfolding reslice_def assms by simp
qed

lemma unat_of_char: "unat (of_char c :: byte) = of_char c"
proof -
  have "unat (of_nat (of_char c) :: byte) = of_char c"
    by (simp add: unat_of_nat)
  then show ?thesis by (simp add: of_nat_of_char)
qed

lemma string_of_bytes_inverse: "string_of_bytes (bytes_of_string s) = s"
  by (simp add: string_of_bytes_def bytes_of_string_def unat_of_char map_idI)

lemma unat_length: "n < 256 \<Longrightarrow> unat (of_nat n :: byte) = n"
  by (simp add: unat_of_nat)

section \<open>The header\<close>

text \<open>
  C9. Unpacking the twelve bytes that \<open>packHeader\<close> makes of a header gives the header
  back, for every value of its six 16-bit fields and whatever capacity the slice has.
\<close>

theorem unpackResponseHeader_packHeader:
  "unpackResponseHeader \<lparr>vis = packHeader h, spare = sp\<rparr> = Inr h"
proof -
  have two: "Uint16 \<lparr>vis = [ucast (drop_bit 8 n), ucast n], spare = r\<rparr> = Inr n" for n r
    using Uint16_uint16ToByteSlice [of n r] by (simp add: uint16ToByteSlice_def)
  show ?thesis
    by (simp add: unpackResponseHeader_def packHeader_def packUint16Fields_def
        uint16ToByteSlice_def sliceTo_def reslice_def cap_def Uint16_of_def andThen_def two)
qed

text \<open>
  C5, as the code has it. \<open>checkResponse\<close> looks at the flags only: it returns no
  error when bit 15 of the flags is set, it returns the error
  \<open>No response from DNS server\<close> when the flags are below 32767, and the id of the
  header does not change its result.
\<close>

theorem checkResponse_flags_only:
  "(bit (flags h) 15 \<longrightarrow> checkResponse h = None)
   \<and> (flags h < 32767 \<longrightarrow> checkResponse h = Some ''No response from DNS server'')
   \<and> checkResponse (h\<lparr>id' := i\<rparr>) = checkResponse h"
proof -
  have "\<not> flags h < 32767" if "32768 \<le> flags h"
    using that by (simp add: word_le_nat_alt word_less_nat_alt)
  then show ?thesis
    by (simp add: checkResponse_def bit15_iff)
qed

theorem checkResponse_flags_only_witness:
  "bit (flags \<lparr>id' = 22, flags = 33152, numQuestions = 1, numAnswers = 1,
               numAuthorityRR = 0, numAdditionalRR = 0\<rparr>) 15
   \<and> checkResponse \<lparr>id' = 22, flags = 33152, numQuestions = 1, numAnswers = 1,
                      numAuthorityRR = 0, numAdditionalRR = 0\<rparr> = None
   \<and> flags \<lparr>id' = 22, flags = 256, numQuestions = 1, numAnswers = 1,
             numAuthorityRR = 0, numAdditionalRR = 0\<rparr> < 32767
   \<and> checkResponse \<lparr>id' = 22, flags = 256, numQuestions = 1, numAnswers = 1,
                      numAuthorityRR = 0, numAdditionalRR = 0\<rparr>
       = Some ''No response from DNS server''"
  using checkResponse_flags_only [of "\<lparr>id' = 22, flags = 33152, numQuestions = 1,
          numAnswers = 1, numAuthorityRR = 0, numAdditionalRR = 0\<rparr>" 22]
    checkResponse_flags_only [of "\<lparr>id' = 22, flags = 256, numQuestions = 1,
          numAnswers = 1, numAuthorityRR = 0, numAdditionalRR = 0\<rparr>" 22]
  by (simp add: bit15_iff)

text \<open>
  C5 as stated fails: a response whose id (23) is not the id of the query (22) is
  accepted.
\<close>

theorem checkResponse_accepts_other_id:
  "checkResponse \<lparr>id' = 23, flags = 32768, numQuestions = 1, numAnswers = 1,
                    numAuthorityRR = 0, numAdditionalRR = 0\<rparr> = None
   \<and> id' \<lparr>id' = 23, flags = 32768, numQuestions = 1, numAnswers = 1,
            numAuthorityRR = 0, numAdditionalRR = 0\<rparr> \<noteq> id' sendingHeader"
  by (simp add: checkResponse_def sendingHeader_def)

section \<open>The query id\<close>

text \<open>
  C6, as the code has it. The header of the query that \<open>main\<close> sends is a constant:
  unpacking the message gives the id 22, flags 0 and one question, in every run.
\<close>

theorem main_message_header:
  "unpackResponseHeader \<lparr>vis = main_message, spare = sp\<rparr> =
     Inr \<lparr>id' = 22, flags = 0, numQuestions = 1, numAnswers = 0,
          numAuthorityRR = 0, numAdditionalRR = 0\<rparr>"
  by (simp add: main_message_def packMessage_def unpackResponseHeader_def packHeader_def
      packUint16Fields_def uint16ToByteSlice_def sliceTo_def reslice_def cap_def Uint16_of_def
      Uint16_def len_def andThen_def sendingHeader_def)

text \<open>C6 as stated fails: the two id bytes of the query are the fixed value 22.\<close>

theorem main_message_fixed_id:
  "id' sendingHeader = 22 \<and> take 2 main_message = [0, 22]"
  by (simp add: main_message_def packMessage_def packHeader_def packUint16Fields_def
      uint16ToByteSlice_def sendingHeader_def)

section \<open>Encoding a name\<close>

lemma encodeHost_loop_eq:
  "encodeHost_loop result sections = result @ concat (map label_bytes sections)"
  by (induction sections arbitrary: result) (simp_all add: label_bytes_def)

lemma strings_Split_nonempty: "strings_Split s sep \<noteq> []"
  by (cases s) (simp_all split: list.splits)

lemma length_label_bytes: "length (label_bytes l) = length l + 1"
  by (simp add: label_bytes_def bytes_of_string_def)

lemma length_labels:
  "length (concat (map label_bytes (strings_Split s sep))) = length s + 1"
proof (induction s)
  case Nil
  show ?case by (simp add: label_bytes_def bytes_of_string_def)
next
  case (Cons c cs)
  obtain l rest where "strings_Split cs sep = l # rest"
    using strings_Split_nonempty [of cs sep] by (cases "strings_Split cs sep") auto
  with Cons show ?case by (simp add: label_bytes_def bytes_of_string_def)
qed

text \<open>
  C10. For every string, \<open>encodeHost\<close> returns \<open>len(host) + 2\<close> bytes, the last of
  which is 0. The function has no failure: its result is a byte sequence.
\<close>

theorem encodeHost_length_last:
  "length (encodeHost s) = length s + 2 \<and> last (encodeHost s) = 0"
  by (simp add: encodeHost_def encodeHost_loop_eq length_labels)

text \<open>
  C7, as the code has it. \<open>encodeHost\<close> checks nothing: for every string it returns,
  for each section between dots, the length of the section as one byte (modulo 256) and
  the bytes of the section, and then a zero byte.
\<close>

theorem encodeHost_labels:
  "encodeHost s = concat (map label_bytes (strings_Split s CHR ''.'')) @ [0]"
  by (simp add: encodeHost_def encodeHost_loop_eq)

text \<open>
  C7 as stated fails: a name with an empty label is encoded, the empty label as a zero
  byte in the middle of the result.
\<close>

theorem encodeHost_empty_label:
  "[] \<in> set (strings_Split ''a..b'' CHR ''.'') \<and> encodeHost ''a..b'' = [1, 97, 0, 1, 98, 0]"
  by (simp add: encodeHost_def bytes_of_string_def)

section \<open>Decoding a name\<close>

text \<open>
  C8. The bytes of \<open>dns.google.com\<close>, and the name read back from them.
\<close>

theorem encodeHost_decodeHost_dns_google_com:
  "encodeHost ''dns.google.com'' =
     [3, 100, 110, 115, 6, 103, 111, 111, 103, 108, 101, 3, 99, 111, 109, 0]
   \<and> decodeHost \<lparr>vis = [3, 100, 110, 115, 6, 103, 111, 111, 103, 108, 101, 3, 99, 111, 109, 0],
                  spare = sp\<rparr> = Inr ''dns.google.com''"
  by (simp add: encodeHost_def bytes_of_string_def decodeHost_def at_def len_def andThen_def
      reslice_def cap_def string_of_bytes_def char_of_def decodeHost_shifts.simps bit_0)

lemma strings_Join_Cons:
  "strings_Join ((c # l) # rest) sep = c # strings_Join (l # rest) sep"
  by (cases rest) simp_all

lemma Join_Split: "strings_Join (strings_Split s sep) [sep] = s"
proof (induction s)
  case Nil
  show ?case by simp
next
  case (Cons c cs)
  obtain sec rest where sp: "strings_Split cs sep = sec # rest"
    using strings_Split_nonempty [of cs sep] by (cases "strings_Split cs sep") auto
  with Cons show ?case by (simp add: strings_Join_Cons)
qed

lemma decodeHost_shifts_labels:
  assumes "\<forall>l \<in> set ls. 0 < length l \<and> length l < 256"
    and "vis buf = pre @ concat (map label_bytes ls) @ 0 # post"
  shows "decodeHost_shifts buf (vis buf ! length pre) (length pre) acc = Inr (acc @ map length ls)"
  using assms
proof (induction ls arbitrary: pre acc)
  case Nil
  then show ?case by (simp add: decodeHost_shifts.simps)
next
  case (Cons l ls)
  have l: "0 < length l" "length l < 256" using Cons.prems(1) by auto
  have first: "vis buf ! length pre = of_nat (length l)"
    using Cons.prems(2) by (simp add: label_bytes_def)
  have nz: "(of_nat (length l) :: byte) \<noteq> 0"
    using l by (metis unat_length unsigned_0 less_numeral_extra(3))
  have v: "vis buf = (pre @ label_bytes l) @ concat (map label_bytes ls) @ 0 # post"
    using Cons.prems(2) by simp
  have lp: "length pre + length l + 1 = length (pre @ label_bytes l)"
    by (simp add: length_label_bytes)
  have inb: "length (pre @ label_bytes l) < len buf"
    unfolding len_def by (subst v) simp
  have ih: "decodeHost_shifts buf (vis buf ! length (pre @ label_bytes l)) (length (pre @ label_bytes l)) (acc @ [length l])
     = Inr ((acc @ [length l]) @ map length ls)"
    using Cons.IH [OF _ v] Cons.prems(1) by simp
  show ?case
    apply (subst decodeHost_shifts.simps)
    apply (simp only: first nz unat_length [OF l(2)] lp)
    using inb ih apply (simp add: at_def)
    done
qed

lemma decodeHost_parts_labels:
  assumes "vis buf = pre @ concat (map label_bytes ls) @ post"
  shows "decodeHost_parts buf (map length ls) (length pre + 1) acc = Inr (acc @ ls)"
  using assms
proof (induction ls arbitrary: pre acc)
  case Nil
  then show ?case by simp
next
  case (Cons l ls)
  have v: "vis buf = (pre @ label_bytes l) @ concat (map label_bytes ls) @ post"
    using Cons.prems by simp
  have v2: "vis buf @ spare buf = (pre @ [of_nat (length l)]) @ bytes_of_string l @ (concat (map label_bytes ls) @ post @ spare buf)"
    using Cons.prems by (simp add: label_bytes_def [of l])
  have lb: "length (bytes_of_string l) = length l" by (simp add: bytes_of_string_def)
  have rs: "reslice buf (length pre + 1) (length l + (length pre + 1)) =
      Inr \<lparr>vis = bytes_of_string l, spare = concat (map label_bytes ls) @ post @ spare buf\<rparr>"
    using reslice_mid [OF v2] by (simp add: lb)
  have ih: "decodeHost_parts buf (map length ls) (length (pre @ label_bytes l) + 1) (acc @ [l]) = Inr ((acc @ [l]) @ ls)"
    using Cons.IH [OF v] by simp
  show ?case
    using ih rs by (simp add: string_of_bytes_inverse length_label_bytes ac_simps)
qed

lemma decodeHost_encodeHost_general:
  assumes "\<forall>l \<in> set (strings_Split s CHR ''.''). 0 < length l \<and> length l < 256"
  shows "decodeHost \<lparr>vis = encodeHost s, spare = sp\<rparr> = Inr s"
proof -
  let ?ls = "strings_Split s CHR ''.''"
  let ?buf = "\<lparr>vis = encodeHost s, spare = sp\<rparr>"
  have v: "vis ?buf = [] @ concat (map label_bytes ?ls) @ 0 # []"
    by (simp add: encodeHost_def encodeHost_loop_eq)
  have v': "vis ?buf = [] @ concat (map label_bytes ?ls) @ [0]"
    by (simp add: encodeHost_def encodeHost_loop_eq)
  have ne: "0 < len ?buf" by (simp add: len_def encodeHost_def)
  have a: "at ?buf 0 = Inr (vis ?buf ! length ([]::byte list))"
    using ne by (simp add: at_def)
  have b: "decodeHost_shifts ?buf (vis ?buf ! length ([]::byte list)) (length ([]::byte list)) [] = Inr ([] @ map length ?ls)"
    by (rule decodeHost_shifts_labels [OF assms v])
  have c: "decodeHost_parts ?buf (map length ?ls) (length ([]::byte list) + 1) [] = Inr ([] @ ?ls)"
    by (rule decodeHost_parts_labels [OF v'])
  show ?thesis
    unfolding decodeHost_def using b c
    by (simp add: a andThen_def Join_Split [of s "CHR ''.''", simplified])
qed

text \<open>
  C3. A name whose labels have 1 to 63 bytes each and whose encoding has at most 255
  bytes is read back from its encoding, whatever the capacity of the slice.
\<close>

theorem decodeHost_encodeHost:
  assumes "\<forall>l \<in> set (strings_Split s CHR ''.''). 1 \<le> length l \<and> length l \<le> 63"
    and "length (encodeHost s) \<le> 255"
  shows "decodeHost \<lparr>vis = encodeHost s, spare = sp\<rparr> = Inr s"
proof (rule decodeHost_encodeHost_general)
  show "\<forall>l \<in> set (strings_Split s CHR ''.''). 0 < length l \<and> length l < 256"
    using assms(1) by fastforce
qed

theorem decodeHost_encodeHost_witness:
  "list_all (\<lambda>l. 1 \<le> length l \<and> length l \<le> 63) (strings_Split ''ns1.example.org'' CHR ''.'')
   \<and> length (encodeHost ''ns1.example.org'') \<le> 255
   \<and> decodeHost \<lparr>vis = encodeHost ''ns1.example.org'', spare = [7, 7]\<rparr>
       = Inr ''ns1.example.org''"
proof -
  have a: "\<forall>l \<in> set (strings_Split ''ns1.example.org'' CHR ''.''). 1 \<le> length l \<and> length l \<le> 63"
    by simp
  have b: "length (encodeHost ''ns1.example.org'') \<le> 255"
    by (simp add: encodeHost_def bytes_of_string_def)
  show ?thesis
    using a b decodeHost_encodeHost [OF a b, of "[7, 7]"] by (simp add: list_all_iff)
qed

section \<open>Extracting the answers\<close>












section \<open>Decoding a response\<close>

lemma andThen_simps [simp]:
  "andThen (Inl e) f = Inl e" "andThen (Inr x) f = f x"
  by (simp_all add: andThen_def)

lemma Uint16_of_inside:
  "hi = lo + 2 \<Longrightarrow> hi \<le> cap s \<Longrightarrow> \<exists>v. Uint16_of s lo hi = Inr v"
  by (simp add: Uint16_of_def reslice_def Uint16_def len_def cap_def)

lemma sliceTo_12:
  "12 \<le> cap m \<Longrightarrow> \<exists>hb. sliceTo m 12 = Inr hb \<and> cap hb = cap m \<and> len hb = 12"
  by (auto simp add: sliceTo_def reslice_def cap_def len_def)

lemma unpackResponseHeader_short:
  "cap m < 12 \<Longrightarrow> unpackResponseHeader m = Inl SliceBoundsOutOfRange"
  by (simp add: unpackResponseHeader_def sliceTo_def reslice_def)

lemma unpackResponseHeader_long:
  assumes "12 \<le> cap m"
  shows "\<exists>h. unpackResponseHeader m = Inr h"
proof -
  obtain hb where hb: "sliceTo m 12 = Inr hb" "cap hb = cap m"
    using sliceTo_12 [OF assms] by blast
  have c: "12 \<le> cap hb" using hb assms by simp
  obtain f1 where f1: "Uint16_of hb 0 2 = Inr f1"
    using Uint16_of_inside [of 2 0 hb] c by auto
  obtain f2 where f2: "Uint16_of hb 2 4 = Inr f2"
    using Uint16_of_inside [of 4 2 hb] c by auto
  obtain f3 where f3: "Uint16_of hb 4 6 = Inr f3"
    using Uint16_of_inside [of 6 4 hb] c by auto
  obtain f4 where f4: "Uint16_of hb 6 8 = Inr f4"
    using Uint16_of_inside [of 8 6 hb] c by auto
  obtain f5 where f5: "Uint16_of hb 8 10 = Inr f5"
    using Uint16_of_inside [of 10 8 hb] c by auto
  obtain f6 where f6: "Uint16_of hb 10 12 = Inr f6"
    using Uint16_of_inside [of 12 10 hb] c by auto
  show ?thesis
    by (simp add: unpackResponseHeader_def hb f1 f2 f3 f4 f5 f6)
qed

lemma sliceFrom_short: "len s < lo \<Longrightarrow> sliceFrom s lo = Inl SliceBoundsOutOfRange"
  by (simp add: sliceFrom_def reslice_def)

lemma main_decode_short:
  assumes "len response < 12"
  shows "main_decode response = Inl SliceBoundsOutOfRange"
proof (cases "cap response < 12")
  case True
  then show ?thesis by (simp add: main_decode_def unpackResponseHeader_short)
next
  case False
  then obtain h where "unpackResponseHeader response = Inr h"
    using unpackResponseHeader_long [of response] by auto
  then show ?thesis
    using assms by (simp add: main_decode_def sliceFrom_short)
qed

lemma at_empty: "len s = 0 \<Longrightarrow> at s i = Inl IndexOutOfRange"
  by (simp add: at_def)

lemma main_decode_header_only:
  assumes "len response = 12"
  shows "main_decode response = Inl IndexOutOfRange
       \<or> main_decode response = Inl (LogFatal ''No response from DNS server'')"
proof -
  have "12 \<le> cap response" using assms by (simp add: cap_def len_def)
  then obtain h where h: "unpackResponseHeader response = Inr h"
    using unpackResponseHeader_long [of response] by auto
  obtain r where r: "sliceFrom response 12 = Inr r" "len r = 0"
    using assms by (simp add: sliceFrom_def reslice_def cap_def len_def)
  show ?thesis
    by (simp add: main_decode_def h r checkResponse_def extractAuthorityAnswer_def
        domainLength_def extractAnswers_def at_empty [OF r(2)])
qed

subsection \<open>The loops end\<close>

lemma shiftLoop_fuel_enough:
  "len buf - (base + n) < fuel \<Longrightarrow>
   shiftLoop_fuel fuel buf base shift n = Some (shiftLoop buf base shift n)"
proof (induction fuel arbitrary: shift n)
  case 0
  then show ?case by simp
next
  case (Suc fuel)
  show ?case
  proof (cases "shift = 0")
    case True
    then show ?thesis by (simp add: shiftLoop.simps)
  next
    case False
    show ?thesis
    proof (cases "base + (n + unat shift + 1) < len buf")
      case True
      then have "len buf - (base + (n + unat shift + 1)) < fuel"
        using Suc.prems by linarith
      from Suc.IH [OF this] True False show ?thesis
        by (subst shiftLoop.simps) (simp add: at_def)
    next
      case b: False
      with False show ?thesis
        by (subst shiftLoop.simps) (simp add: at_def)
    qed
  qed
qed

lemma decodeHost_shifts_fuel_enough:
  "len buf - n < fuel \<Longrightarrow>
   decodeHost_shifts_fuel fuel buf shift n acc = Some (decodeHost_shifts buf shift n acc)"
proof (induction fuel arbitrary: shift n acc)
  case 0
  then show ?case by simp
next
  case (Suc fuel)
  show ?case
  proof (cases "shift = 0")
    case True
    then show ?thesis by (simp add: decodeHost_shifts.simps)
  next
    case False
    show ?thesis
    proof (cases "n + unat shift + 1 < len buf")
      case True
      then have "len buf - (n + unat shift + 1) < fuel"
        using Suc.prems by linarith
      from Suc.IH [OF this] True False show ?thesis
        by (subst decodeHost_shifts.simps) (simp add: at_def)
    next
      case b: False
      with False show ?thesis
        by (subst decodeHost_shifts.simps) (simp add: at_def)
    qed
  qed
qed

subsection \<open>The failures are panics\<close>

lemma andThen_Inl:
  "andThen r f = Inl e \<Longrightarrow> r = Inl e \<or> (\<exists>x. r = Inr x \<and> f x = Inl e)"
  by (cases r) simp_all

lemma at_panic: "at s i = Inl e \<Longrightarrow> range_panic e"
  by (auto simp: at_def range_panic_def split: if_splits)

lemma reslice_panic: "reslice s lo hi = Inl e \<Longrightarrow> range_panic e"
  by (auto simp: reslice_def range_panic_def split: if_splits)

lemma sliceFrom_panic: "sliceFrom s lo = Inl e \<Longrightarrow> range_panic e"
  by (auto simp: sliceFrom_def dest: reslice_panic)

lemma sliceTo_panic: "sliceTo s hi = Inl e \<Longrightarrow> range_panic e"
  by (auto simp: sliceTo_def dest: reslice_panic)

lemma Uint16_panic: "Uint16 b = Inl e \<Longrightarrow> range_panic e"
  by (auto simp: Uint16_def range_panic_def split: if_splits)

lemma Uint32_panic: "Uint32 b = Inl e \<Longrightarrow> range_panic e"
  by (auto simp: Uint32_def range_panic_def split: if_splits)

lemma Uint16_of_panic: "Uint16_of s lo hi = Inl e \<Longrightarrow> range_panic e"
  by (auto simp: Uint16_of_def dest!: andThen_Inl dest: reslice_panic Uint16_panic)

lemma Uint32_of_panic: "Uint32_of s lo hi = Inl e \<Longrightarrow> range_panic e"
  by (auto simp: Uint32_of_def dest!: andThen_Inl dest: reslice_panic Uint32_panic)

lemma shiftLoop_panic: "shiftLoop buf base shift n = Inl e \<Longrightarrow> range_panic e"
proof (induction buf base shift n rule: shiftLoop.induct)
  case (1 buf base shift n)
  from "1.prems" show ?case
    by (subst (asm) shiftLoop.simps)
       (auto split: if_splits sum.splits dest: at_panic "1.IH")
qed

lemma decodeHost_shifts_panic:
  "decodeHost_shifts buf shift n acc = Inl e \<Longrightarrow> range_panic e"
proof (induction buf shift n acc rule: decodeHost_shifts.induct)
  case (1 buf shift n acc)
  from "1.prems" show ?case
    by (subst (asm) decodeHost_shifts.simps)
       (auto split: if_splits sum.splits dest: at_panic "1.IH")
qed

lemma decodeHost_parts_panic:
  "decodeHost_parts buf shifts start acc = Inl e \<Longrightarrow> range_panic e"
  by (induction buf shifts start acc rule: decodeHost_parts.induct)
     (auto split: sum.splits dest: reslice_panic)

lemma decodeHost_panic: "decodeHost buf = Inl e \<Longrightarrow> range_panic e"
  by (auto simp: decodeHost_def dest!: andThen_Inl
      dest: at_panic decodeHost_shifts_panic decodeHost_parts_panic)

lemma domainLength_panic: "domainLength m = Inl e \<Longrightarrow> range_panic e"
  by (auto simp: domainLength_def dest!: andThen_Inl dest: at_panic shiftLoop_panic)

lemma extractAuthorityAnswer_panic: "extractAuthorityAnswer m = Inl e \<Longrightarrow> range_panic e"
  by (auto simp: extractAuthorityAnswer_def dest!: andThen_Inl
      dest: domainLength_panic sliceFrom_panic)

lemma referencedName_panic: "referencedName m r = Inl e \<Longrightarrow> range_panic e"
  by (auto simp: referencedName_def dest!: andThen_Inl
      dest: sliceFrom_panic at_panic shiftLoop_panic reslice_panic)

lemma RDData_bytes_panic: "RDData_bytes a = Inl e \<Longrightarrow> range_panic e"
  by (auto simp: RDData_bytes_def dest!: andThen_Inl dest: Uint16_of_panic reslice_panic)

lemma decodeIP_panic: "decodeIP ip = Inl e \<Longrightarrow> range_panic e"
  by (auto simp: decodeIP_def dest!: andThen_Inl dest: at_panic)

lemma unpackAuthorityAnswer_panic: "unpackAuthorityAnswer m a = Inl e \<Longrightarrow> range_panic e"
  by (auto simp: unpackAuthorityAnswer_def split: if_splits dest!: andThen_Inl
      dest: Uint16_of_panic Uint32_of_panic referencedName_panic decodeHost_panic
        RDData_bytes_panic)

lemma unpackAnswers_body_panic: "unpackAnswers_body m a = Inl e \<Longrightarrow> range_panic e"
  by (auto simp: unpackAnswers_body_def split: if_splits dest!: andThen_Inl
      dest: Uint16_of_panic Uint32_of_panic referencedName_panic decodeHost_panic
        RDData_bytes_panic decodeIP_panic)

lemma unpackAnswers_loop_panic:
  "unpackAnswers_loop m as acc = Inl e \<Longrightarrow> range_panic e"
  by (induction m as acc rule: unpackAnswers_loop.induct)
     (auto split: sum.splits option.splits dest: unpackAnswers_body_panic)

lemma unpackAnswers_panic: "unpackAnswers m as = Inl e \<Longrightarrow> range_panic e"
  by (auto simp: unpackAnswers_def dest: unpackAnswers_loop_panic)

lemma extractAnswers_loop_panic:
  "extractAnswers_loop ia sep xs c p acc = Inl e \<Longrightarrow> range_panic e"
  by (induction ia sep xs c p acc rule: extractAnswers_loop.induct)
     (auto split: sum.splits if_splits dest: reslice_panic simp: range_panic_def)

lemma extractAnswers_panic:
  "extractAnswers m n = Inl e \<Longrightarrow> range_panic e \<or> e = IntegerDivideByZero"
  by (auto simp: extractAnswers_def split: if_splits dest!: andThen_Inl
      dest: at_panic shiftLoop_panic sliceFrom_panic extractAnswers_loop_panic)

lemma unpackResponseHeader_panic: "unpackResponseHeader m = Inl e \<Longrightarrow> range_panic e"
  by (auto simp: unpackResponseHeader_def dest!: andThen_Inl
      dest: sliceTo_panic Uint16_of_panic)

lemma main_decode_failure:
  assumes "main_decode response = Inl e"
  shows "range_panic e \<or> e = IntegerDivideByZero \<or> e = LogFatal ''No response from DNS server''"
  using assms
  by (auto simp: main_decode_def checkResponse_def split: if_splits option.splits
      dest!: andThen_Inl
      dest: unpackResponseHeader_panic sliceFrom_panic extractAuthorityAnswer_panic
        unpackAuthorityAnswer_panic extractAnswers_panic unpackAnswers_panic)


text \<open>
  C1, as the code has it. For every response, decoding returns: each of the two loops
  \<open>for shift != 0\<close> ends before its condition has been tested more than
  \<open>len(buf) + 1\<close> times (the other loops range over a slice), and the result is a
  decoded value, or \<open>log.Fatal\<close> with \<open>No response from DNS server\<close>, or one of the
  run-time panics index out of range, slice bounds out of range and integer divide by
  zero; the code has no error \<open>MalformedMessage\<close>. A response of fewer than 12 bytes
  ends in the panic slice bounds out of range, a response of exactly 12 bytes in the
  panic index out of range or in \<open>log.Fatal\<close>.
\<close>

theorem main_decode_returns:
  "((\<exists>v. main_decode response = Inr v)
      \<or> main_decode response = Inl IndexOutOfRange
      \<or> main_decode response = Inl SliceBoundsOutOfRange
      \<or> main_decode response = Inl IntegerDivideByZero
      \<or> main_decode response = Inl (LogFatal ''No response from DNS server''))
   \<and> (len response < 12 \<longrightarrow> main_decode response = Inl SliceBoundsOutOfRange)
   \<and> (len response = 12 \<longrightarrow>
        main_decode response = Inl IndexOutOfRange
        \<or> main_decode response = Inl (LogFatal ''No response from DNS server''))
   \<and> (len buf < fuel \<longrightarrow>
        shiftLoop_fuel fuel buf base shift n = Some (shiftLoop buf base shift n))
   \<and> (len buf < fuel \<longrightarrow>
        decodeHost_shifts_fuel fuel buf shift n acc = Some (decodeHost_shifts buf shift n acc))"
proof -
  have shape: "(\<exists>v. main_decode response = Inr v)
      \<or> main_decode response = Inl IndexOutOfRange
      \<or> main_decode response = Inl SliceBoundsOutOfRange
      \<or> main_decode response = Inl IntegerDivideByZero
      \<or> main_decode response = Inl (LogFatal ''No response from DNS server'')"
  proof (cases "main_decode response")
    case (Inl e)
    with main_decode_failure [OF Inl] show ?thesis
      by (auto simp: range_panic_def)
  next
    case (Inr v)
    then show ?thesis by simp
  qed
  have l1: "shiftLoop_fuel fuel buf base shift n = Some (shiftLoop buf base shift n)"
    if "len buf < fuel"
    by (rule shiftLoop_fuel_enough) (use that in simp)
  have l2: "decodeHost_shifts_fuel fuel buf shift n acc = Some (decodeHost_shifts buf shift n acc)"
    if "len buf < fuel"
    by (rule decodeHost_shifts_fuel_enough) (use that in simp)
  show ?thesis
    using shape main_decode_short [of response] main_decode_header_only [of response] l1 l2
    by blast
qed

theorem main_decode_returns_witness:
  "len \<lparr>vis = [0, 22, 128, 0, 0], spare = replicate 59 0\<rparr> < 12
   \<and> main_decode \<lparr>vis = [0, 22, 128, 0, 0], spare = replicate 59 0\<rparr>
       = Inl SliceBoundsOutOfRange
   \<and> len \<lparr>vis = [0, 22, 129, 128, 0, 1, 0, 0, 0, 1, 0, 0], spare = []\<rparr> = 12
   \<and> main_decode \<lparr>vis = [0, 22, 129, 128, 0, 1, 0, 0, 0, 1, 0, 0], spare = []\<rparr>
       = Inl IndexOutOfRange
   \<and> len \<lparr>vis = [3, 100, 110, 115, 0, 0, 1, 0, 1], spare = []\<rparr> < 10
   \<and> shiftLoop_fuel 10 \<lparr>vis = [3, 100, 110, 115, 0, 0, 1, 0, 1], spare = []\<rparr> 0 3 0
       = Some (Inr 4)
   \<and> decodeHost_shifts_fuel 10 \<lparr>vis = [3, 100, 110, 115, 0, 0, 1, 0, 1], spare = []\<rparr> 3 0 []
       = Some (Inr [3])"
proof -
  let ?r5 = "\<lparr>vis = [0, 22, 128, 0, 0], spare = replicate 59 0\<rparr>"
  let ?r12 = "\<lparr>vis = [0, 22, 129, 128, 0, 1, 0, 0, 0, 1, 0, 0], spare = []\<rparr>"
  let ?b = "\<lparr>vis = [3, 100, 110, 115, 0, 0, 1, 0, 1], spare = []\<rparr>"
  have a: "len ?r5 < 12" by (simp add: len_def)
  have b: "len ?r12 = 12" by (simp add: len_def)
  have c: "main_decode ?r12 \<noteq> Inl (LogFatal ''No response from DNS server'')"
    by code_simp
  have d: "len ?b < 10" by (simp add: len_def)
  have e: "shiftLoop ?b 0 3 0 = Inr 4" by code_simp
  have f: "decodeHost_shifts ?b 3 0 [] = Inr [3]" by code_simp
  show ?thesis
    using a b c d e f
      main_decode_returns [of ?r5 ?b 10 0 3 0 "[]"]
      main_decode_returns [of ?r12 ?b 10 0 3 0 "[]"]
    by simp
qed

text \<open>
  C1 as stated fails: the header of this response declares one answer and the response
  ends after the header; decoding it panics.
\<close>

theorem main_decode_header_without_answer:
  "main_decode \<lparr>vis = [0, 22, 128, 0, 0, 1, 0, 1, 0, 0, 0, 0], spare = replicate 52 0\<rparr>
   = Inl IndexOutOfRange"
  by code_simp

section \<open>Compression pointers\<close>

lemma unpackAnswers_loop_member:
  assumes "unpackAnswers_body message answer = Inl e" and "answer \<in> set answers"
  shows "\<exists>e'. unpackAnswers_loop message answers acc = Inl e'"
  using assms(2)
proof (induction answers arbitrary: acc)
  case Nil
  then show ?case by simp
next
  case (Cons a as)
  show ?case
  proof (cases "unpackAnswers_body message a")
    case (Inl e')
    then show ?thesis by simp
  next
    case (Inr r)
    with assms(1) have "a \<noteq> answer" by auto
    with Cons.prems have "answer \<in> set as" by simp
    from Cons.IH [OF this] Inr show ?thesis
      by (cases r) simp_all
  qed
qed

text \<open>
  C2, as the code has it. Take a message of at most 193 bytes and a block of bytes whose
  first two bytes are a pointer (a value above 49152) to a byte of the message that has
  its two high bits set: a pointer again, the same one or another. Then
  \<open>unpackAuthorityAnswer\<close> of that block, and \<open>unpackAnswers\<close> of a list that starts
  with it, stop in the panic index out of range; \<open>unpackAnswers\<close> of a list that
  holds the block anywhere returns no records and stops in a panic, index or slice
  bounds out of range. The code has no error \<open>CompressionLoop\<close>.
\<close>

theorem pointer_to_pointer_panics:
  assumes "Uint16_of answer 0 2 = Inr pointer" and "49152 < pointer"
    and "at message (unat (pointer - 49152)) = Inr b" and "192 \<le> b" and "len message \<le> 193"
  shows "unpackAuthorityAnswer message answer = Inl IndexOutOfRange
       \<and> unpackAnswers message (answer # rest) = Inl IndexOutOfRange
       \<and> (answer \<in> set answers \<longrightarrow>
            unpackAnswers message answers = Inl IndexOutOfRange
            \<or> unpackAnswers message answers = Inl SliceBoundsOutOfRange)"
proof -
  let ?rd = "unat (pointer - 49152)"
  have lt: "?rd < len message" and bv: "b = vis message ! ?rd"
    using assms(3) by (auto simp: at_def split: if_splits)
  have sf: "sliceFrom message ?rd = Inr \<lparr>vis = drop ?rd (vis message), spare = spare message\<rparr>"
    using lt by (simp add: sliceFrom_def reslice_def cap_def len_def)
  have a0: "at \<lparr>vis = drop ?rd (vis message), spare = spare message\<rparr> 0 = Inr b"
    using lt bv by (simp add: at_def len_def)
  have nz: "b \<noteq> 0" using assms(4) by auto
  have big: "192 \<le> unat b" using assms(4) by (simp add: word_le_nat_alt)
  have lp: "shiftLoop message 12 b 0 = Inl IndexOutOfRange"
    apply (subst shiftLoop.simps)
    using nz big assms(5) by (simp add: at_def)
  have rn: "referencedName message (pointer - 49152) = Inl IndexOutOfRange"
    by (simp add: referencedName_def sf a0 lp)
  have body: "unpackAnswers_body message answer = Inl IndexOutOfRange"
    using assms(1,2) by (simp add: unpackAnswers_body_def rn)
  have anywhere: "unpackAnswers message answers = Inl IndexOutOfRange
            \<or> unpackAnswers message answers = Inl SliceBoundsOutOfRange"
    if mem: "answer \<in> set answers"
  proof -
    obtain e' where e': "unpackAnswers message answers = Inl e'"
      using unpackAnswers_loop_member [OF body mem] by (auto simp: unpackAnswers_def)
    from unpackAnswers_panic [OF e'] e' show ?thesis
      by (auto simp: range_panic_def)
  qed
  show ?thesis
    using assms(1,2) anywhere by (simp add: unpackAnswers_def body unpackAuthorityAnswer_def rn)
qed

theorem pointer_to_pointer_panics_witness:
  "Uint16_of \<lparr>vis = [192, 19, 0, 1, 0, 1, 0, 0, 0, 60, 0, 4, 8, 8, 4, 4], spare = []\<rparr> 0 2
     = Inr 49171
   \<and> (49152::uint16) < 49171
   \<and> at \<lparr>vis = [0, 22, 128, 0, 0, 1, 0, 2, 0, 0, 0, 0, 1, 97, 0, 0, 1, 0, 1,
                 192, 12, 0, 1, 0, 1, 0, 0, 0, 60, 0, 4, 8, 8, 8, 8,
                 192, 19, 0, 1, 0, 1, 0, 0, 0, 60, 0, 4, 8, 8, 4, 4], spare = []\<rparr>
         (unat (49171 - 49152 :: uint16)) = Inr 192
   \<and> (192::byte) \<le> 192
   \<and> len \<lparr>vis = [0, 22, 128, 0, 0, 1, 0, 2, 0, 0, 0, 0, 1, 97, 0, 0, 1, 0, 1,
                  192, 12, 0, 1, 0, 1, 0, 0, 0, 60, 0, 4, 8, 8, 8, 8,
                  192, 19, 0, 1, 0, 1, 0, 0, 0, 60, 0, 4, 8, 8, 4, 4], spare = []\<rparr> \<le> 193
   \<and> unpackAuthorityAnswer
         \<lparr>vis = [0, 22, 128, 0, 0, 1, 0, 2, 0, 0, 0, 0, 1, 97, 0, 0, 1, 0, 1,
                 192, 12, 0, 1, 0, 1, 0, 0, 0, 60, 0, 4, 8, 8, 8, 8,
                 192, 19, 0, 1, 0, 1, 0, 0, 0, 60, 0, 4, 8, 8, 4, 4], spare = []\<rparr>
         \<lparr>vis = [192, 19, 0, 1, 0, 1, 0, 0, 0, 60, 0, 4, 8, 8, 4, 4], spare = []\<rparr>
       = Inl IndexOutOfRange
   \<and> unpackAnswers
         \<lparr>vis = [0, 22, 128, 0, 0, 1, 0, 2, 0, 0, 0, 0, 1, 97, 0, 0, 1, 0, 1,
                 192, 12, 0, 1, 0, 1, 0, 0, 0, 60, 0, 4, 8, 8, 8, 8,
                 192, 19, 0, 1, 0, 1, 0, 0, 0, 60, 0, 4, 8, 8, 4, 4], spare = []\<rparr>
         [\<lparr>vis = [192, 19, 0, 1, 0, 1, 0, 0, 0, 60, 0, 4, 8, 8, 4, 4], spare = []\<rparr>]
       = Inl IndexOutOfRange
   \<and> unpackAnswers
         \<lparr>vis = [0, 22, 128, 0, 0, 1, 0, 2, 0, 0, 0, 0, 1, 97, 0, 0, 1, 0, 1,
                 192, 12, 0, 1, 0, 1, 0, 0, 0, 60, 0, 4, 8, 8, 8, 8,
                 192, 19, 0, 1, 0, 1, 0, 0, 0, 60, 0, 4, 8, 8, 4, 4], spare = []\<rparr>
         [\<lparr>vis = [192, 12, 0, 1, 0, 1, 0, 0, 0, 60, 0, 4, 8, 8, 8, 8],
           spare = [192, 19, 0, 1, 0, 1, 0, 0, 0, 60, 0, 4, 8, 8, 4, 4]\<rparr>,
          \<lparr>vis = [192, 19, 0, 1, 0, 1, 0, 0, 0, 60, 0, 4, 8, 8, 4, 4], spare = []\<rparr>]
       = Inl IndexOutOfRange"
proof -
  let ?m = "\<lparr>vis = [0, 22, 128, 0, 0, 1, 0, 2, 0, 0, 0, 0, 1, 97, 0, 0, 1, 0, 1,
                 192, 12, 0, 1, 0, 1, 0, 0, 0, 60, 0, 4, 8, 8, 8, 8,
                 192, 19, 0, 1, 0, 1, 0, 0, 0, 60, 0, 4, 8, 8, 4, 4], spare = []\<rparr>"
  let ?a = "\<lparr>vis = [192, 19, 0, 1, 0, 1, 0, 0, 0, 60, 0, 4, 8, 8, 4, 4], spare = []\<rparr>"
  let ?as = "[\<lparr>vis = [192, 12, 0, 1, 0, 1, 0, 0, 0, 60, 0, 4, 8, 8, 8, 8],
           spare = [192, 19, 0, 1, 0, 1, 0, 0, 0, 60, 0, 4, 8, 8, 4, 4]\<rparr>, ?a]"
  have h1: "Uint16_of ?a 0 2 = Inr 49171" by code_simp
  have h2: "(49152::uint16) < 49171" by simp
  have h3: "at ?m (unat (49171 - 49152 :: uint16)) = Inr 192" by code_simp
  have h4: "(192::byte) \<le> 192" by simp
  have h5: "len ?m \<le> 193" by (simp add: len_def)
  have h6: "?a \<in> set ?as" by simp
  have h7: "unpackAnswers ?m ?as \<noteq> Inl SliceBoundsOutOfRange" by code_simp
  show ?thesis
    using h1 h2 h3 h4 h5 h6 h7 pointer_to_pointer_panics [OF h1 h2 h3 h4 h5, of "[]" ?as]
    by blast
qed

text \<open>
  C2 as stated fails: the name of the answer of this response is a pointer to itself
  (offset 19). \<open>extractAnswers\<close> finds the record, and unpacking it panics.
\<close>

theorem unpackAnswers_self_pointer:
  "extractAnswers
     \<lparr>vis = [1, 97, 0, 0, 1, 0, 1,
             192, 19, 0, 1, 0, 1, 0, 0, 0, 0, 0, 4, 1, 2, 3, 4], spare = []\<rparr> 1
   = Inr [\<lparr>vis = [192, 19, 0, 1, 0, 1, 0, 0, 0, 0, 0, 4, 1, 2, 3, 4], spare = []\<rparr>]
   \<and> unpackAnswers
       \<lparr>vis = [0, 22, 128, 0, 0, 1, 0, 1, 0, 0, 0, 0, 1, 97, 0, 0, 1, 0, 1,
               192, 19, 0, 1, 0, 1, 0, 0, 0, 0, 0, 4, 1, 2, 3, 4], spare = []\<rparr>
       [\<lparr>vis = [192, 19, 0, 1, 0, 1, 0, 0, 0, 0, 0, 4, 1, 2, 3, 4], spare = []\<rparr>]
     = Inl IndexOutOfRange
   \<and> main_decode
       \<lparr>vis = [0, 22, 128, 0, 0, 1, 0, 1, 0, 0, 0, 0, 1, 97, 0, 0, 1, 0, 1,
               192, 19, 0, 1, 0, 1, 0, 0, 0, 0, 0, 4, 1, 2, 3, 4], spare = []\<rparr>
     = Inl IndexOutOfRange"
  by code_simp

end
